theory Spec2Isabelle
  imports Main "HOL-Library.Word"
begin

section \<open>JavaScript strings\<close>

text \<open>
  A JavaScript string is a sequence of UTF-16 code units and \<open>.length\<close> counts code
  units, so a string is a list of 16-bit words. \<open>js\<close> embeds an ASCII literal; the two
  non-ASCII characters of the plugin's notices (U+23F3 and U+274C) are single code units
  and are written as numerals.
\<close>

type_synonym jschar = "16 word"
type_synonym jsstring = "jschar list"

definition js :: "string \<Rightarrow> jsstring" where
  "js s = map of_char s"

definition nl :: jschar where
  "nl = 0x0A"

text \<open>
  \<open>String.prototype.split\<close> with a one-character separator: the result is never empty,
  \<open>"".split("\n")\<close> is \<open>[""]\<close> and \<open>"a\n".split("\n")\<close> is \<open>["a", ""]\<close>.
\<close>

fun split_on :: "'a \<Rightarrow> 'a list \<Rightarrow> 'a list list" where
  "split_on sep [] = [[]]"
| "split_on sep (c # cs) =
     (if c = sep then [] # split_on sep cs
      else (c # hd (split_on sep cs)) # tl (split_on sep cs))"

section \<open>Position objects\<close>

text \<open>
  \<open>EditorPosition\<close> is the host's \<open>{ line, ch }\<close> object. Position objects are mutable
  and held by reference (\<open>outputPos.ch += ...\<close>), so they live in a store: a reference is
  an address, \<open>new_obj\<close> is an object literal or a spread copy, \<open>set_line\<close> and \<open>set_ch\<close>
  are the field assignments.
\<close>

record EditorPosition =
  line :: nat
  ch :: nat

record Heap =
  cells :: "nat \<Rightarrow> EditorPosition"
  next_ref :: nat

definition new_obj :: "EditorPosition \<Rightarrow> Heap \<Rightarrow> nat \<times> Heap" where
  "new_obj v h = (next_ref h, \<lparr>cells = (cells h)(next_ref h := v), next_ref = Suc (next_ref h)\<rparr>)"

definition set_line :: "nat \<Rightarrow> nat \<Rightarrow> Heap \<Rightarrow> Heap" where
  "set_line r v h = h\<lparr>cells := (cells h)(r := (cells h r)\<lparr>line := v\<rparr>)\<rparr>"

definition set_ch :: "nat \<Rightarrow> nat \<Rightarrow> Heap \<Rightarrow> Heap" where
  "set_ch r v h = h\<lparr>cells := (cells h)(r := (cells h r)\<lparr>ch := v\<rparr>)\<rparr>"

section \<open>The editor surface\<close>

text \<open>
  Modelled from the spec: the text buffer / editor surface (the host's \<open>Editor\<close>), an
  external collaborator that is not part of the repository. The spec gives its contract:
  it exposes the current selection range as two positions in (line, column) space with
  \<open>from \<le> to\<close>, the line contents, and \<open>replaceRange(text, from, to?)\<close>, where a
  single-position replace is an insertion at that point. The buffer is its content as one
  string with \<open>"\n"\<close> between lines. A position beyond the end of its line or of the
  buffer is clipped to that end. \<open>replaced\<close> records the \<open>replaceRange\<close> calls received,
  oldest first. \<open>sel_from\<close> and \<open>sel_to\<close> are what \<open>getCursor("from")\<close> and
  \<open>getCursor("to")\<close> return when the handler starts; the handler reads the selection
  only before its first edit.
\<close>

record Editor =
  doc :: jsstring
  sel_from :: EditorPosition
  sel_to :: EditorPosition
  replaced :: "(jsstring \<times> EditorPosition \<times> EditorPosition option) list"

text \<open>
  Modelled from the spec: the offset of a position in the buffer string. Each line before
  the position's line counts with its line break; the column is clipped to the length of
  the line, and a line beyond the last one gives the end of the buffer.
\<close>

definition posToOffset :: "jsstring \<Rightarrow> EditorPosition \<Rightarrow> nat" where
  "posToOffset t p =
     (let ls = split_on nl t
      in if line p < length ls
         then sum_list (map (\<lambda>l. Suc (length l)) (take (line p) ls))
              + min (ch p) (length (ls ! line p))
         else length t)"

text \<open>
  Modelled from the spec: the position of an offset, the number of line breaks before it
  and the length of the text since the last one. A position is valid when it is the
  position of its own offset, that is, when nothing of it was clipped.
\<close>

definition offsetToPos :: "jsstring \<Rightarrow> nat \<Rightarrow> EditorPosition" where
  "offsetToPos t n =
     (let ls = split_on nl (take n t)
      in \<lparr>line = length ls - 1, ch = length (last ls)\<rparr>)"

definition valid_pos :: "jsstring \<Rightarrow> EditorPosition \<Rightarrow> bool" where
  "valid_pos t p = (offsetToPos t (posToOffset t p) = p)"

text \<open>
  Modelled from the spec: the selection of an editor consists of two positions of the
  buffer, \<open>from \<le> to\<close> in document order.
\<close>

definition wf_editor :: "Editor \<Rightarrow> bool" where
  "wf_editor e =
     (valid_pos (doc e) (sel_from e) \<and> valid_pos (doc e) (sel_to e)
      \<and> posToOffset (doc e) (sel_from e) \<le> posToOffset (doc e) (sel_to e))"

text \<open>
  Modelled from the spec: \<open>getSelection()\<close>, the text between the two selection ends
  (empty when they coincide), and \<open>getLine(n)\<close>, the content of line \<open>n\<close> without its
  line break; the host raises when there is no such line.
\<close>

definition getSelection :: "Editor \<Rightarrow> jsstring" where
  "getSelection e =
     drop (posToOffset (doc e) (sel_from e)) (take (posToOffset (doc e) (sel_to e)) (doc e))"

definition getLine :: "Editor \<Rightarrow> nat \<Rightarrow> jsstring option" where
  "getLine e n =
     (let ls = split_on nl (doc e) in if n < length ls then Some (ls ! n) else None)"

text \<open>
  Modelled from the spec: \<open>replaceRange(text, from, to?)\<close> replaces the text between the
  two positions; without \<open>to\<close> it inserts at \<open>from\<close>. The range never ends before its
  start.
\<close>

definition replaceRange ::
  "jsstring \<Rightarrow> EditorPosition \<Rightarrow> EditorPosition option \<Rightarrow> Editor \<Rightarrow> Editor" where
  "replaceRange txt from to e =
     (let a = posToOffset (doc e) from;
          b = (case to of None \<Rightarrow> a | Some p \<Rightarrow> posToOffset (doc e) p)
      in e\<lparr>doc := take a (doc e) @ txt @ drop (max a b) (doc e),
            replaced := replaced e @ [(txt, from, to)]\<rparr>)"

section \<open>Settings\<close>

record ModelSettings =
  model :: jsstring
  systemPrompt :: jsstring

definition DEFAULT_SETTINGS :: ModelSettings where
  "DEFAULT_SETTINGS = \<lparr>model = js ''llama3.2'', systemPrompt = []\<rparr>"

text \<open>
  What \<open>loadData()\<close> resolves to: \<open>None\<close> is \<open>null\<close> (nothing was ever saved), otherwise
  an object that holds any of the two fields.
\<close>

record StoredData =
  stored_model :: "jsstring option"
  stored_systemPrompt :: "jsstring option"

text \<open>\<open>Object.assign({}, defaults, data)\<close>: every field present in \<open>data\<close> overrides.\<close>

definition Object_assign :: "ModelSettings \<Rightarrow> StoredData option \<Rightarrow> ModelSettings" where
  "Object_assign defaults d =
     (case d of
        None \<Rightarrow> defaults
      | Some s \<Rightarrow>
          \<lparr>model = (case stored_model s of None \<Rightarrow> model defaults | Some v \<Rightarrow> v),
           systemPrompt =
             (case stored_systemPrompt s of None \<Rightarrow> systemPrompt defaults | Some v \<Rightarrow> v)\<rparr>)"

section \<open>The generation client\<close>

record Message =
  role :: jsstring
  content :: jsstring

record ChatRequest =
  req_model :: jsstring
  req_messages :: "Message list"
  req_stream :: bool

record JsError =
  name :: jsstring

text \<open>
  What \<open>ollama.chat\<close> answers: the parts the stream yields, in order, and how it ends.
  A rejected \<open>chat\<close> promise is a stream that throws before its first part.
\<close>

datatype StreamEnd = Done | Thrown JsError

record ChatStream =
  parts :: "jsstring list"
  ending :: StreamEnd

section \<open>The plugin\<close>

record World =
  activeEditor :: "Editor option"
  settings :: ModelSettings
  data :: "StoredData option"
  notices :: "jsstring list"
  console_errors :: "JsError list"
  chat_calls :: "ChatRequest list"
  heap :: Heap

definition Notice :: "jsstring \<Rightarrow> World \<Rightarrow> World" where
  "Notice msg w = w\<lparr>notices := notices w @ [msg]\<rparr>"

definition console_error :: "JsError \<Rightarrow> World \<Rightarrow> World" where
  "console_error err w = w\<lparr>console_errors := console_errors w @ [err]\<rparr>"

definition NO_EDITOR :: jsstring where
  "NO_EDITOR = js ''No active editor found.''"

definition NO_SELECTION :: jsstring where
  "NO_SELECTION = js ''Please select some text to send to Ollama.''"

definition PLACEHOLDER :: jsstring where
  "PLACEHOLDER = 0x23F3 # js '' Generating response...''"

definition ABORTED :: jsstring where
  "ABORTED = js ''Aborted all requests''"

definition GENERIC_ERROR :: jsstring where
  "GENERIC_ERROR = 0x274C # js '' Error communicating with Ollama.''"

definition loadSettings :: "World \<Rightarrow> World" where
  "loadSettings w = w\<lparr>settings := Object_assign DEFAULT_SETTINGS (data w)\<rparr>"

definition saveSettings :: "World \<Rightarrow> World" where
  "saveSettings w =
     w\<lparr>data := Some \<lparr>stored_model = Some (model (settings w)),
                      stored_systemPrompt = Some (systemPrompt (settings w))\<rparr>\<rparr>"

text \<open>
  The body of the streaming loop (main.ts 67-78): insert the chunk at \<open>outputPos\<close>, then
  advance \<open>outputPos\<close> in place.
\<close>

definition apply_chunk :: "nat \<Rightarrow> jsstring \<Rightarrow> Editor \<times> Heap \<Rightarrow> Editor \<times> Heap" where
  "apply_chunk outputPos chunk s =
     (let h = snd s;
          editor = replaceRange chunk (cells h outputPos) None (fst s);
          lines = split_on nl chunk
      in if length lines = 1
         then (editor, set_ch outputPos (ch (cells h outputPos) + length (lines ! 0)) h)
         else
           (let h1 = set_line outputPos (line (cells h outputPos) + (length lines - 1)) h
            in (editor, set_ch outputPos (length (lines ! (length lines - 1))) h1)))"

fun for_await :: "jsstring list \<Rightarrow> nat \<Rightarrow> Editor \<times> Heap \<Rightarrow> Editor \<times> Heap" where
  "for_await [] outputPos s = s"
| "for_await (chunk # rest) outputPos s = for_await rest outputPos (apply_chunk outputPos chunk s)"

text \<open>The catch block (main.ts 80-87).\<close>

definition catch_block :: "JsError \<Rightarrow> World \<Rightarrow> World" where
  "catch_block err w =
     (if name err = js ''AbortError'' then Notice ABORTED w
      else Notice GENERIC_ERROR (console_error err w))"

text \<open>
  The local variables of the send handler that hold position objects, as references.
\<close>

record Locals =
  l_from :: nat
  l_to :: nat
  l_end :: nat
  l_outputPos :: nat

text \<open>
  Remembering the selection and inserting the placeholder (main.ts 36-40): the editor
  after the insertion, the store, and the references \<open>from\<close> and \<open>to\<close>.
\<close>

definition insert_placeholder :: "Editor \<Rightarrow> Heap \<Rightarrow> Editor \<times> Heap \<times> nat \<times> nat" where
  "insert_placeholder editor h =
     (let (from, h1) = new_obj (sel_from editor) h;
          (to, h2) = new_obj (sel_to editor) h1
      in (replaceRange PLACEHOLDER (cells h2 from) (Some (cells h2 to)) editor, h2, from, to))"

text \<open>
  Removing the placeholder (main.ts 43-47): \<open>None\<close> when \<open>getLine\<close> has no such line,
  where the host raises outside the \<open>try\<close> block.
\<close>

definition remove_placeholder :: "nat \<Rightarrow> Editor \<Rightarrow> Heap \<Rightarrow> (Editor \<times> Heap \<times> nat) option" where
  "remove_placeholder from editor h =
     (case getLine editor (line (cells h from)) of
        None \<Rightarrow> None
      | Some l \<Rightarrow>
          (let lineLength = length l;
               (end, h1) = new_obj \<lparr>line = line (cells h from), ch = lineLength\<rparr> h
           in Some (replaceRange [] (cells h1 from) (Some (cells h1 end)) editor, h1, end)))"

definition build_request :: "ModelSettings \<Rightarrow> jsstring \<Rightarrow> ChatRequest" where
  "build_request s prompt =
     (let message = \<lparr>role = js ''user'', content = systemPrompt s @ [nl, nl] @ prompt\<rparr>
      in \<lparr>req_model = model s, req_messages = [message], req_stream = True\<rparr>)"

text \<open>
  The "Send to Ollama" handler (main.ts 20-88). \<open>ollama_chat\<close> is the generation client.
  The result is the world after the handler and the handler's position variables, \<open>None\<close>
  when it returned or raised before declaring them all.
\<close>

definition send_to_ollama :: "(ChatRequest \<Rightarrow> ChatStream) \<Rightarrow> World \<Rightarrow> World \<times> Locals option" where
  "send_to_ollama ollama_chat w =
     (case activeEditor w of
        None \<Rightarrow> (Notice NO_EDITOR w, None)
      | Some editor \<Rightarrow>
          (let prompt = getSelection editor
           in if prompt = [] then (Notice NO_SELECTION w, None)
              else
                (let (editor1, h2, from, to) = insert_placeholder editor (heap w)
                 in case remove_placeholder from editor1 h2 of
                      None \<Rightarrow> (w\<lparr>activeEditor := Some editor1, heap := h2\<rparr>, None)
                    | Some (editor2, h3, end) \<Rightarrow>
                        (let (outputPos, h4) = new_obj (cells h3 from) h3;
                             request = build_request (settings w) prompt;
                             response = ollama_chat request;
                             (editor3, h5) = for_await (parts response) outputPos (editor2, h4);
                             w1 = w\<lparr>activeEditor := Some editor3, heap := h5,
                                    chat_calls := chat_calls w @ [request]\<rparr>;
                             locals = \<lparr>l_from = from, l_to = to, l_end = end,
                                       l_outputPos = outputPos\<rparr>
                         in case ending response of
                              Done \<Rightarrow> (w1, Some locals)
                            | Thrown err \<Rightarrow> (catch_block err w1, Some locals)))))"

section \<open>The cursor rule of the specification\<close>

text \<open>
  The two-case rule as the specification words it, to be compared with what
  \<open>apply_chunk\<close> computes: without a newline the column grows by the chunk's length and
  the line stays; with newlines the line grows by their number and the column is the
  length of the text after the last one. \<open>origin\<close> is the position (0, 0), and the
  position that ends a text \<open>t\<close> written from the origin is \<open>cursor_rule origin t\<close>.
\<close>

definition cursor_rule :: "EditorPosition \<Rightarrow> jsstring \<Rightarrow> EditorPosition" where
  "cursor_rule p t =
     (if nl \<in> set t
      then \<lparr>line = line p + length (filter (\<lambda>c. c = nl) t),
            ch = length (takeWhile (\<lambda>c. c \<noteq> nl) (rev t))\<rparr>
      else \<lparr>line = line p, ch = ch p + length t\<rparr>)"

definition origin :: EditorPosition where
  "origin = \<lparr>line = 0, ch = 0\<rparr>"

text \<open>
  Document order on positions, and two fixtures: the empty buffer with the selection at
  the origin, and a store whose only object, at address 0, is a given position.
\<close>

definition pos_le :: "EditorPosition \<Rightarrow> EditorPosition \<Rightarrow> bool" where
  "pos_le p q = (line p < line q \<or> (line p = line q \<and> ch p \<le> ch q))"

definition empty_buffer :: Editor where
  "empty_buffer = \<lparr>doc = [], sel_from = origin, sel_to = origin, replaced = []\<rparr>"

definition heap_with :: "EditorPosition \<Rightarrow> Heap" where
  "heap_with p = \<lparr>cells = (\<lambda>_. p), next_ref = 1\<rparr>"

section \<open>An example session\<close>

text \<open>
  An editor showing \<open>"ab SEL cd\nxyz"\<close> with \<open>"SEL"\<close> selected, a plugin that has just
  loaded with nothing stored, and a generation client that yields two parts and then
  throws an error of a given name.
\<close>

definition example_editor :: Editor where
  "example_editor =
     \<lparr>doc = js ''ab SEL cd'' @ nl # js ''xyz'', sel_from = \<lparr>line = 0, ch = 3\<rparr>,
      sel_to = \<lparr>line = 0, ch = 6\<rparr>, replaced = []\<rparr>"

definition example_world :: World where
  "example_world =
     \<lparr>activeEditor = Some example_editor, settings = DEFAULT_SETTINGS, data = None,
      notices = [], console_errors = [], chat_calls = [], heap = heap_with origin\<rparr>"

definition example_chat :: "jsstring \<Rightarrow> ChatRequest \<Rightarrow> ChatStream" where
  "example_chat error_name request =
     \<lparr>parts = [js ''Hi'', nl # js ''there''], ending = Thrown \<lparr>name = error_name\<rparr>\<rparr>"

section \<open>Splitting at newlines\<close>

lemma split_on_not_Nil [simp]: "split_on s xs \<noteq> []"
  by (induction xs) simp_all

text \<open>
  The same equation with the recursive call written once, for evaluating \<open>split_on\<close> on a
  literal in linear time.
\<close>

lemma split_on_Cons_case:
  "split_on sep (c # cs) =
     (case split_on sep cs of
        [] \<Rightarrow> []
      | l # ls \<Rightarrow> if c = sep then [] # l # ls else (c # l) # ls)"
  by (cases "split_on sep cs") simp_all

lemma length_split_on: "length (split_on s xs) = Suc (length (filter (\<lambda>c. c = s) xs))"
  by (induction xs) simp_all

lemma split_on_no_sep: "s \<notin> set xs \<Longrightarrow> split_on s xs = [xs]"
  by (induction xs) auto

lemma hd_split_on: "hd (split_on s xs) = takeWhile (\<lambda>c. c \<noteq> s) xs"
  by (induction xs) simp_all

lemma last_split_on_Cons:
  "last (split_on s (x # xs)) = (if s \<in> set (x # xs) then last (split_on s xs) else x # xs)"
proof (cases "split_on s xs")
  case Nil
  then show ?thesis by simp
next
  case (Cons l ls)
  show ?thesis
  proof (cases "s \<in> set xs")
    case True
    then have "length (filter (\<lambda>c. c = s) xs) \<noteq> 0"
      by (simp add: filter_empty_conv)
    then have "length (split_on s xs) \<noteq> 1"
      by (simp add: length_split_on)
    with Cons have "ls \<noteq> []" by auto
    with Cons True show ?thesis by auto
  next
    case False
    then show ?thesis by (auto simp: split_on_no_sep)
  qed
qed

lemma last_split_on: "last (split_on s xs) = rev (takeWhile (\<lambda>c. c \<noteq> s) (rev xs))"
proof (induction xs)
  case Nil
  show ?case by simp
next
  case (Cons x xs)
  have "last (split_on s (x # xs)) = (if s \<in> set (x # xs) then last (split_on s xs) else x # xs)"
    by (rule last_split_on_Cons)
  also have "\<dots> = rev (takeWhile (\<lambda>c. c \<noteq> s) (rev (x # xs)))"
    using Cons by (auto simp: takeWhile_append)
  finally show ?case .
qed

lemma split_on_append:
  "split_on s (xs @ ys) =
     butlast (split_on s xs) @ [last (split_on s xs) @ hd (split_on s ys)] @ tl (split_on s ys)"
proof (induction xs)
  case Nil
  show ?case by simp
next
  case (Cons x xs)
  obtain l ls where S: "split_on s xs = l # ls"
    by (cases "split_on s xs") simp_all
  show ?case
  proof (cases "x = s")
    case True
    with Cons show ?thesis by simp
  next
    case False
    with Cons S show ?thesis by (cases ls) simp_all
  qed
qed

section \<open>Positions and offsets\<close>

lemma filter_no_sep: "s \<notin> set xs \<Longrightarrow> filter (\<lambda>c. c = s) xs = []"
  by (induction xs) auto

lemma takeWhile_no_sep: "s \<notin> set xs \<Longrightarrow> takeWhile (\<lambda>c. c \<noteq> s) xs = xs"
  by (induction xs) auto

lemma filter_sep_pos: "s \<in> set xs \<Longrightarrow> 0 < length (filter (\<lambda>c. c = s) xs)"
  by (induction xs) auto

lemma nth_last_split_on:
  "split_on s xs ! length (filter (\<lambda>c. c = s) xs) = rev (takeWhile (\<lambda>c. c \<noteq> s) (rev xs))"
proof -
  have "last (split_on s xs) = split_on s xs ! (length (split_on s xs) - 1)"
    by (rule last_conv_nth) simp
  then show ?thesis
    by (simp add: length_split_on last_split_on)
qed

lemma EditorPosition_updates: "p\<lparr>line := a, ch := b\<rparr> = \<lparr>line = a, ch = b\<rparr>"
  by (cases p) simp

lemma apply_chunk_cell:
  "cells (snd (apply_chunk r c (e, h))) r = cursor_rule (cells h r) c"
proof (cases "nl \<in> set c")
  case True
  then show ?thesis
    using filter_sep_pos [OF True]
    by (simp add: apply_chunk_def Let_def cursor_rule_def set_ch_def set_line_def
        length_split_on nth_last_split_on EditorPosition_updates)
next
  case False
  then show ?thesis
    by (cases "cells h r")
       (simp add: apply_chunk_def Let_def cursor_rule_def set_ch_def split_on_no_sep)
qed

lemma apply_chunk_other:
  "r' \<noteq> r \<Longrightarrow> cells (snd (apply_chunk r c (e, h))) r' = cells h r'"
  by (simp add: apply_chunk_def Let_def set_ch_def set_line_def)

lemma apply_chunk_editor:
  "fst (apply_chunk r c (e, h)) = replaceRange c (cells h r) None e"
  by (simp add: apply_chunk_def Let_def)

lemma cursor_rule_append: "cursor_rule (cursor_rule p a) b = cursor_rule p (a @ b)"
  by (cases "nl \<in> set a"; cases "nl \<in> set b")
     (auto simp: cursor_rule_def takeWhile_append filter_no_sep takeWhile_no_sep)

lemma cursor_rule_Nil [simp]: "cursor_rule p [] = p"
  by (simp add: cursor_rule_def)

lemma offsetToPos_cursor_rule: "offsetToPos t n = cursor_rule origin (take n t)"
  by (cases "nl \<in> set (take n t)")
     (simp_all add: offsetToPos_def cursor_rule_def origin_def Let_def length_split_on
        last_split_on split_on_no_sep)

lemma posToOffset_Nil: "posToOffset [] p = 0"
  by (simp add: posToOffset_def Let_def)

lemma posToOffset_Cons:
  "posToOffset (x # xs) p =
     (case line p of
        0 \<Rightarrow> if x = nl \<or> ch p = 0 then 0 else Suc (posToOffset xs (p\<lparr>ch := ch p - 1\<rparr>))
      | Suc l \<Rightarrow> Suc (posToOffset xs (if x = nl then p\<lparr>line := l\<rparr> else p)))"
proof -
  obtain h t where S: "split_on nl xs = h # t"
    by (cases "split_on nl xs") simp_all
  show ?thesis
  proof (cases "line p")
    case 0
    with S show ?thesis
      by (cases "ch p") (auto simp: posToOffset_def Let_def)
  next
    case (Suc l)
    with S show ?thesis
      by (cases l) (auto simp: posToOffset_def Let_def)
  qed
qed

lemma posToOffset_le: "posToOffset t p \<le> length t"
  by (induction t arbitrary: p) (auto simp: posToOffset_Nil posToOffset_Cons split: nat.splits)

lemma cursor_rule_Cons:
  "cursor_rule origin (x # a) =
     (let q = cursor_rule origin a
      in if x = nl then q\<lparr>line := Suc (line q)\<rparr>
         else if line q = 0 then q\<lparr>ch := Suc (ch q)\<rparr> else q)"
proof (cases "nl \<in> set a")
  case True
  with filter_sep_pos [OF True] show ?thesis
    by (auto simp: cursor_rule_def origin_def Let_def takeWhile_append)
next
  case False
  then show ?thesis
    by (auto simp: cursor_rule_def origin_def Let_def takeWhile_append filter_no_sep
        takeWhile_no_sep)
qed

lemma posToOffset_cursor_rule: "posToOffset (a @ b) (cursor_rule origin a) = length a"
proof (induction a)
  case Nil
  show ?case
    by (cases b) (simp_all add: posToOffset_Nil posToOffset_Cons origin_def)
next
  case (Cons x a)
  obtain l c where q: "cursor_rule origin a = \<lparr>line = l, ch = c\<rparr>"
    by (cases "cursor_rule origin a") auto
  with Cons show ?case
    by (cases l) (auto simp: posToOffset_Cons cursor_rule_Cons Let_def)
qed

lemma valid_pos_iff:
  "valid_pos t p \<longleftrightarrow> (\<exists>n\<le>length t. p = cursor_rule origin (take n t))"
proof
  assume "valid_pos t p"
  then have "p = cursor_rule origin (take (posToOffset t p) t)"
    by (simp add: valid_pos_def offsetToPos_cursor_rule)
  with posToOffset_le show "\<exists>n\<le>length t. p = cursor_rule origin (take n t)"
    by blast
next
  assume "\<exists>n\<le>length t. p = cursor_rule origin (take n t)"
  then obtain n where n: "n \<le> length t" "p = cursor_rule origin (take n t)"
    by blast
  have "posToOffset (take n t @ drop n t) (cursor_rule origin (take n t)) = length (take n t)"
    by (rule posToOffset_cursor_rule)
  with n have "posToOffset t p = n" by simp
  with n show "valid_pos t p"
    by (simp add: valid_pos_def offsetToPos_cursor_rule)
qed

section \<open>The streaming loop\<close>

lemma replaceRange_insert_doc:
  "doc (replaceRange c p None e) =
     take (posToOffset (doc e) p) (doc e) @ c @ drop (posToOffset (doc e) p) (doc e)"
  by (simp add: replaceRange_def Let_def)

lemma replaceRange_replaced:
  "replaced (replaceRange c p q e) = replaced e @ [(c, p, q)]"
  by (simp add: replaceRange_def Let_def)

lemma valid_pos_cursor_rule: "valid_pos (a @ b) (cursor_rule origin a)"
  by (simp add: valid_pos_def offsetToPos_cursor_rule posToOffset_cursor_rule)

lemma valid_pos_prefix:
  "valid_pos t p \<Longrightarrow> p = cursor_rule origin (take (posToOffset t p) t)"
  by (simp add: valid_pos_def offsetToPos_cursor_rule)

lemma insert_at_valid:
  fixes t c :: jsstring
  assumes "valid_pos t p"
  defines "n \<equiv> posToOffset t p"
  defines "t' \<equiv> take n t @ c @ drop n t"
  shows "cursor_rule p c = offsetToPos t' (n + length c)"
    and "posToOffset t' (cursor_rule p c) = n + length c"
    and "valid_pos t' (cursor_rule p c)"
proof -
  have n: "n \<le> length t"
    unfolding n_def by (rule posToOffset_le)
  have p: "p = cursor_rule origin (take n t)"
    unfolding n_def using assms(1) by (rule valid_pos_prefix)
  have q: "cursor_rule p c = cursor_rule origin (take n t @ c)"
    by (subst p) (rule cursor_rule_append)
  have t': "t' = (take n t @ c) @ drop n t"
    by (simp add: t'_def)
  have len: "length (take n t @ c) = n + length c"
    using n by simp
  from n show "cursor_rule p c = offsetToPos t' (n + length c)"
    by (simp add: q offsetToPos_cursor_rule t'_def)
  show "posToOffset t' (cursor_rule p c) = n + length c"
    unfolding q t' using posToOffset_cursor_rule [of "take n t @ c" "drop n t"] len by simp
  show "valid_pos t' (cursor_rule p c)"
    unfolding q t' by (rule valid_pos_cursor_rule)
qed

lemma for_await_append:
  "for_await (xs @ ys) r s = for_await ys r (for_await xs r s)"
  by (induction xs arbitrary: s) simp_all

lemma for_await_other_cells:
  "r' \<noteq> r \<Longrightarrow> cells (snd (for_await cs r s)) r' = cells (snd s) r'"
proof (induction cs arbitrary: s)
  case Nil
  show ?case by simp
next
  case (Cons c cs)
  then show ?case
    by (cases s) (simp add: apply_chunk_other)
qed

lemma for_await_invariant:
  fixes cs :: "jsstring list"
  assumes "valid_pos (doc e) (cells h r)"
  defines "n \<equiv> posToOffset (doc e) (cells h r)"
  defines "s' \<equiv> for_await cs r (e, h)"
  shows "doc (fst s') = take n (doc e) @ concat cs @ drop n (doc e)"
    and "cells (snd s') r = cursor_rule (cells h r) (concat cs)"
    and "posToOffset (doc (fst s')) (cells (snd s') r) = n + length (concat cs)"
    and "valid_pos (doc (fst s')) (cells (snd s') r)"
    and "map fst (replaced (fst s')) = map fst (replaced e) @ cs"
proof -
  have "doc (fst (for_await cs r (e, h)))
          = take (posToOffset (doc e) (cells h r)) (doc e) @ concat cs
              @ drop (posToOffset (doc e) (cells h r)) (doc e)
        \<and> cells (snd (for_await cs r (e, h))) r = cursor_rule (cells h r) (concat cs)
        \<and> posToOffset (doc (fst (for_await cs r (e, h)))) (cells (snd (for_await cs r (e, h))) r)
          = posToOffset (doc e) (cells h r) + length (concat cs)
        \<and> valid_pos (doc (fst (for_await cs r (e, h)))) (cells (snd (for_await cs r (e, h))) r)
        \<and> map fst (replaced (fst (for_await cs r (e, h)))) = map fst (replaced e) @ cs"
    using assms(1)
  proof (induction cs arbitrary: e h)
    case Nil
    then show ?case
      using posToOffset_le [of "doc e" "cells h r"] by simp
  next
    case (Cons c cs)
    define e1 where "e1 = fst (apply_chunk r c (e, h))"
    define h1 where "h1 = snd (apply_chunk r c (e, h))"
    define m where "m = posToOffset (doc e) (cells h r)"
    have m: "m \<le> length (doc e)"
      unfolding m_def by (rule posToOffset_le)
    have s1: "apply_chunk r c (e, h) = (e1, h1)"
      by (simp add: e1_def h1_def)
    have d1: "doc e1 = take m (doc e) @ c @ drop m (doc e)"
      by (simp add: e1_def m_def apply_chunk_editor replaceRange_insert_doc)
    have c1: "cells h1 r = cursor_rule (cells h r) c"
      by (simp add: h1_def apply_chunk_cell)
    have o1: "posToOffset (doc e1) (cells h1 r) = m + length c"
      unfolding d1 c1 m_def using Cons.prems by (rule insert_at_valid(2))
    have v1: "valid_pos (doc e1) (cells h1 r)"
      unfolding d1 c1 m_def using Cons.prems by (rule insert_at_valid(3))
    have r1: "replaced e1 = replaced e @ [(c, cells h r, None)]"
      by (simp add: e1_def apply_chunk_editor replaceRange_replaced)
    have tk: "take (m + length c) (doc e1) = take m (doc e) @ c"
      using m by (simp add: d1)
    have dr: "drop (m + length c) (doc e1) = drop m (doc e)"
      using m by (simp add: d1)
    note IH = Cons.IH [OF v1, unfolded o1 tk dr]
    from IH show ?case
      by (auto simp: s1 c1 r1 cursor_rule_append m_def [symmetric])
  qed
  then show "doc (fst s') = take n (doc e) @ concat cs @ drop n (doc e)"
    and "cells (snd s') r = cursor_rule (cells h r) (concat cs)"
    and "posToOffset (doc (fst s')) (cells (snd s') r) = n + length (concat cs)"
    and "valid_pos (doc (fst s')) (cells (snd s') r)"
    and "map fst (replaced (fst s')) = map fst (replaced e) @ cs"
    by (auto simp: n_def s'_def)
qed

lemma tl_split_on_prefix:
  "s \<notin> set z \<Longrightarrow> tl (split_on s (z @ y)) = tl (split_on s y)"
  by (induction z) auto

lemma tl_split_on_dropWhile:
  "tl (split_on s (dropWhile (\<lambda>c. c \<noteq> s) ys)) = tl (split_on s ys)"
  by (induction ys) simp_all

lemma takeWhile_dropWhile_sep:
  "takeWhile (\<lambda>c. c \<noteq> s) (dropWhile (\<lambda>c. c \<noteq> s) ys) = []"
  by (induction ys) simp_all

section \<open>Lines at the cursor\<close>

lemma line_cursor_rule_origin:
  "line (cursor_rule origin x) = length (filter (\<lambda>c. c = nl) x)"
  by (simp add: cursor_rule_def origin_def filter_no_sep)

lemma ch_cursor_rule_origin:
  "ch (cursor_rule origin x) = length (last (split_on nl x))"
  by (cases "nl \<in> set x")
     (simp_all add: cursor_rule_def origin_def last_split_on split_on_no_sep)

lemma length_butlast_split_on:
  "length (butlast (split_on nl x)) = line (cursor_rule origin x)"
  by (simp add: line_cursor_rule_origin length_split_on)

lemma split_on_at_cursor:
  "split_on s (x @ y) =
     butlast (split_on s x) @ (last (split_on s x) @ takeWhile (\<lambda>c. c \<noteq> s) y) # tl (split_on s y)"
  by (simp add: split_on_append [of s x y] hd_split_on)

lemma getLine_at_cursor:
  assumes "doc e = x @ y"
  shows "getLine e (line (cursor_rule origin x))
           = Some (last (split_on nl x) @ takeWhile (\<lambda>c. c \<noteq> nl) y)"
proof -
  let ?n = "line (cursor_rule origin x)"
  have n: "length (butlast (split_on nl x)) = ?n"
    by (rule length_butlast_split_on)
  have s: "split_on nl (doc e) =
      butlast (split_on nl x) @ (last (split_on nl x) @ takeWhile (\<lambda>c. c \<noteq> nl) y) # tl (split_on nl y)"
    unfolding assms by (rule split_on_at_cursor)
  have "split_on nl (doc e) ! ?n = last (split_on nl x) @ takeWhile (\<lambda>c. c \<noteq> nl) y"
    unfolding s n [symmetric] by (rule nth_append_length)
  moreover have "?n < length (split_on nl (doc e))"
    unfolding s using n by simp
  ultimately show ?thesis
    by (simp add: getLine_def Let_def)
qed

lemma cursor_rule_same_line:
  "nl \<notin> set z \<Longrightarrow>
     cursor_rule origin (x @ z)
       = \<lparr>line = line (cursor_rule origin x), ch = ch (cursor_rule origin x) + length z\<rparr>"
  by (simp add: cursor_rule_append [symmetric]) (simp add: cursor_rule_def)

lemma pos_le_refl: "pos_le p p"
  by (simp add: pos_le_def)

lemma pos_le_trans: "pos_le p q \<Longrightarrow> pos_le q r \<Longrightarrow> pos_le p r"
  by (auto simp: pos_le_def)

lemma pos_le_cursor_rule: "pos_le p (cursor_rule p c)"
  using filter_sep_pos [of nl c] by (auto simp: pos_le_def cursor_rule_def)

lemma for_await_inserts:
  "\<exists>ins. replaced (fst (for_await cs r (e, h))) = replaced e @ ins \<and> map fst ins = cs
     \<and> (\<forall>(c, p, q)\<in>set ins. q = None \<and> pos_le (cells h r) p)"
proof (induction cs arbitrary: e h)
  case Nil
  show ?case by simp
next
  case (Cons c cs)
  define e1 where "e1 = fst (apply_chunk r c (e, h))"
  define h1 where "h1 = snd (apply_chunk r c (e, h))"
  have s1: "apply_chunk r c (e, h) = (e1, h1)"
    by (simp add: e1_def h1_def)
  have r1: "replaced e1 = replaced e @ [(c, cells h r, None)]"
    by (simp add: e1_def apply_chunk_editor replaceRange_replaced)
  have c1: "pos_le (cells h r) (cells h1 r)"
    by (simp add: h1_def apply_chunk_cell pos_le_cursor_rule)
  from Cons.IH [of e1 h1] obtain ins where
    i: "replaced (fst (for_await cs r (e1, h1))) = replaced e1 @ ins" "map fst ins = cs"
      "\<forall>(c, p, q)\<in>set ins. q = None \<and> pos_le (cells h1 r) p"
    by blast
  from i(3) c1 have "\<forall>(c, p, q)\<in>set ins. q = None \<and> pos_le (cells h r) p"
    by (auto intro: pos_le_trans)
  with i(1,2) show ?case
    by (intro exI [of _ "(c, cells h r, None) # ins"]) (simp add: s1 r1 pos_le_refl)
qed

section \<open>The placeholder\<close>

lemma nl_notin_PLACEHOLDER: "nl \<notin> set PLACEHOLDER"
  by (simp add: PLACEHOLDER_def js_def nl_def)

lemma new_obj_simps:
  "fst (new_obj v h) = next_ref h"
  "cells (snd (new_obj v h)) r = (if r = next_ref h then v else cells h r)"
  "next_ref (snd (new_obj v h)) = Suc (next_ref h)"
  by (simp_all add: new_obj_def)

lemma insert_placeholder_result:
  assumes "posToOffset (doc ed) (sel_from ed) \<le> posToOffset (doc ed) (sel_to ed)"
  shows "insert_placeholder ed h =
    (ed\<lparr>doc := take (posToOffset (doc ed) (sel_from ed)) (doc ed) @ PLACEHOLDER
                 @ drop (posToOffset (doc ed) (sel_to ed)) (doc ed),
        replaced := replaced ed @ [(PLACEHOLDER, sel_from ed, Some (sel_to ed))]\<rparr>,
     snd (new_obj (sel_to ed) (snd (new_obj (sel_from ed) h))),
     next_ref h, Suc (next_ref h))"
  using assms
  by (simp add: insert_placeholder_def new_obj_def replaceRange_def Let_def max_def)

lemma remove_placeholder_result:
  fixes x y z :: jsstring
  assumes d: "doc e1 = x @ z @ y" and z: "nl \<notin> set z"
    and p: "cells h from = cursor_rule origin x" and f: "from \<noteq> next_ref h"
  defines "l1 \<equiv> last (split_on nl x) @ z @ takeWhile (\<lambda>c. c \<noteq> nl) y"
  defines "end \<equiv> \<lparr>line = line (cells h from), ch = length l1\<rparr>"
  shows "getLine e1 (line (cells h from)) = Some l1"
    and "remove_placeholder from e1 h =
      Some (e1\<lparr>doc := x @ dropWhile (\<lambda>c. c \<noteq> nl) y,
               replaced := replaced e1 @ [([], cells h from, Some end)]\<rparr>,
            snd (new_obj end h), next_ref h)"
proof -
  let ?tw = "takeWhile (\<lambda>c. c \<noteq> nl) y"
  let ?dw = "dropWhile (\<lambda>c. c \<noteq> nl) y"
  have tw: "takeWhile (\<lambda>c. c \<noteq> nl) (z @ y) = z @ ?tw"
    using z by (simp add: takeWhile_append)
  have "getLine e1 (line (cursor_rule origin x))
          = Some (last (split_on nl x) @ takeWhile (\<lambda>c. c \<noteq> nl) (z @ y))"
    using d by (rule getLine_at_cursor)
  then show g: "getLine e1 (line (cells h from)) = Some l1"
    by (simp add: p tw l1_def)
  have nz: "nl \<notin> set (z @ ?tw)"
    using z by (auto dest: set_takeWhileD)
  have "cursor_rule origin (x @ (z @ ?tw))
          = \<lparr>line = line (cursor_rule origin x), ch = ch (cursor_rule origin x) + length (z @ ?tw)\<rparr>"
    using nz by (rule cursor_rule_same_line)
  then have e: "end = cursor_rule origin (x @ z @ ?tw)"
    by (simp add: end_def l1_def p ch_cursor_rule_origin)
  have d': "doc e1 = (x @ z @ ?tw) @ ?dw"
    by (simp add: d)
  have a: "posToOffset (doc e1) (cells h from) = length x"
    unfolding d p by (rule posToOffset_cursor_rule)
  have b: "posToOffset (doc e1) end = length (x @ z @ ?tw)"
    unfolding d' e by (rule posToOffset_cursor_rule)
  have r: "replaceRange [] (cells h from) (Some end) e1
             = e1\<lparr>doc := x @ ?dw, replaced := replaced e1 @ [([], cells h from, Some end)]\<rparr>"
    by (simp add: replaceRange_def Let_def a b max_def) (simp add: d dropWhile_eq_drop)
  have c: "cells (snd (new_obj end h)) from = cells h from"
    using f by (simp add: new_obj_simps)
  have c': "cells (snd (new_obj end h)) (next_ref h) = end"
    by (simp add: new_obj_simps)
  show "remove_placeholder from e1 h =
      Some (e1\<lparr>doc := x @ ?dw, replaced := replaced e1 @ [([], cells h from, Some end)]\<rparr>,
            snd (new_obj end h), next_ref h)"
    unfolding remove_placeholder_def g
    using f by (simp add: Let_def split_beta new_obj_simps r end_def [symmetric])
qed

lemma placeholder_steps:
  fixes h :: Heap
  assumes wf: "wf_editor ed"
    and x: "x = take (posToOffset (doc ed) (sel_from ed)) (doc ed)"
    and y: "y = drop (posToOffset (doc ed) (sel_to ed)) (doc ed)"
    and l1: "l1 = last (split_on nl x) @ PLACEHOLDER @ takeWhile (\<lambda>c. c \<noteq> nl) y"
    and ed1: "ed1 = ed\<lparr>doc := x @ PLACEHOLDER @ y,
                      replaced := replaced ed @ [(PLACEHOLDER, sel_from ed, Some (sel_to ed))]\<rparr>"
    and ed2: "ed2 = ed1\<lparr>doc := x @ dropWhile (\<lambda>c. c \<noteq> nl) y,
        replaced := replaced ed1
          @ [([], sel_from ed, Some \<lparr>line = line (sel_from ed), ch = length l1\<rparr>)]\<rparr>"
  defines "h2 \<equiv> snd (new_obj (sel_to ed) (snd (new_obj (sel_from ed) h)))"
  shows "insert_placeholder ed h = (ed1, h2, next_ref h, Suc (next_ref h))"
    and "getLine ed1 (line (sel_from ed)) = Some l1"
    and "remove_placeholder (next_ref h) ed1 h2
           = Some (ed2, snd (new_obj \<lparr>line = line (sel_from ed), ch = length l1\<rparr> h2),
                   Suc (Suc (next_ref h)))"
    and "sel_from ed = cursor_rule origin x"
    and "length x = posToOffset (doc ed) (sel_from ed)"
proof -
  from wf have v: "valid_pos (doc ed) (sel_from ed)"
    and ab: "posToOffset (doc ed) (sel_from ed) \<le> posToOffset (doc ed) (sel_to ed)"
    by (simp_all add: wf_editor_def)
  show "insert_placeholder ed h = (ed1, h2, next_ref h, Suc (next_ref h))"
    using ab unfolding ed1 h2_def x y
    by (rule insert_placeholder_result)
  from v show p: "sel_from ed = cursor_rule origin x"
    unfolding x by (rule valid_pos_prefix)
  have "posToOffset (doc ed) (sel_from ed) \<le> length (doc ed)"
    by (rule posToOffset_le)
  then show "length x = posToOffset (doc ed) (sel_from ed)"
    by (simp add: x)
  have d: "doc ed1 = x @ PLACEHOLDER @ y"
    by (simp add: ed1)
  have c: "cells h2 (next_ref h) = cursor_rule origin x"
    by (simp add: h2_def new_obj_simps p)
  have f: "next_ref h \<noteq> next_ref h2"
    by (simp add: h2_def new_obj_simps)
  have n: "next_ref h2 = Suc (Suc (next_ref h))"
    by (simp add: h2_def new_obj_simps)
  note R = remove_placeholder_result [OF d nl_notin_PLACEHOLDER c f]
  from R(1) show "getLine ed1 (line (sel_from ed)) = Some l1"
    by (simp add: c p l1)
  from R(2) show "remove_placeholder (next_ref h) ed1 h2
           = Some (ed2, snd (new_obj \<lparr>line = line (sel_from ed), ch = length l1\<rparr> h2),
                   Suc (Suc (next_ref h)))"
    by (simp add: c p n l1 ed2)
qed

section \<open>The send handler on a non-empty selection\<close>

lemma catch_block_frame:
  "activeEditor (case e of Done \<Rightarrow> w1 | Thrown err \<Rightarrow> catch_block err w1) = activeEditor w1"
  "heap (case e of Done \<Rightarrow> w1 | Thrown err \<Rightarrow> catch_block err w1) = heap w1"
  "chat_calls (case e of Done \<Rightarrow> w1 | Thrown err \<Rightarrow> catch_block err w1) = chat_calls w1"
  by (cases e; simp add: catch_block_def Notice_def console_error_def)+

lemma send_to_ollama_session:
  assumes ed: "activeEditor w = Some ed" and wf: "wf_editor ed" and sel: "getSelection ed \<noteq> []"
  obtains ed2 h4 where
    "send_to_ollama ollama_chat w =
       (let request = build_request (settings w) (getSelection ed);
            response = ollama_chat request;
            s = for_await (parts response) (next_ref (heap w) + 3) (ed2, h4);
            w1 = w\<lparr>activeEditor := Some (fst s), heap := snd s,
                   chat_calls := chat_calls w @ [request]\<rparr>
        in (case ending response of Done \<Rightarrow> w1 | Thrown err \<Rightarrow> catch_block err w1),
        Some \<lparr>l_from = next_ref (heap w), l_to = next_ref (heap w) + 1,
              l_end = next_ref (heap w) + 2, l_outputPos = next_ref (heap w) + 3\<rparr>)"
    and "doc ed2 = take (posToOffset (doc ed) (sel_from ed)) (doc ed)
                   @ dropWhile (\<lambda>c. c \<noteq> nl) (drop (posToOffset (doc ed) (sel_to ed)) (doc ed))"
    and "length (replaced ed2) = length (replaced ed) + 2"
    and "cells h4 (next_ref (heap w)) = sel_from ed"
    and "cells h4 (next_ref (heap w) + 3) = sel_from ed"
    and "valid_pos (doc ed2) (sel_from ed)"
    and "posToOffset (doc ed2) (sel_from ed) = posToOffset (doc ed) (sel_from ed)"
proof -
  define x where "x = take (posToOffset (doc ed) (sel_from ed)) (doc ed)"
  define y where "y = drop (posToOffset (doc ed) (sel_to ed)) (doc ed)"
  define l1 where "l1 = last (split_on nl x) @ PLACEHOLDER @ takeWhile (\<lambda>c. c \<noteq> nl) y"
  define ed1 where "ed1 = ed\<lparr>doc := x @ PLACEHOLDER @ y,
                      replaced := replaced ed @ [(PLACEHOLDER, sel_from ed, Some (sel_to ed))]\<rparr>"
  define ed2 where "ed2 = ed1\<lparr>doc := x @ dropWhile (\<lambda>c. c \<noteq> nl) y,
     replaced := replaced ed1 @ [([], sel_from ed, Some \<lparr>line = line (sel_from ed), ch = length l1\<rparr>)]\<rparr>"
  define h2 where "h2 = snd (new_obj (sel_to ed) (snd (new_obj (sel_from ed) (heap w))))"
  define h3 where "h3 = snd (new_obj \<lparr>line = line (sel_from ed), ch = length l1\<rparr> h2)"
  define h4 where "h4 = snd (new_obj (cells h3 (next_ref (heap w))) h3)"
  note P = placeholder_steps [OF wf x_def y_def l1_def ed1_def ed2_def]
  have c3: "cells h3 (next_ref (heap w)) = sel_from ed"
    by (simp add: h3_def h2_def new_obj_simps)
  have n3: "next_ref h3 = next_ref (heap w) + 3"
    by (simp add: h3_def h2_def new_obj_simps)
  have o: "new_obj (cells h3 (next_ref (heap w))) h3 = (next_ref (heap w) + 3, h4)"
    by (simp add: h4_def n3 [symmetric]) (simp add: new_obj_def)
  have run: "send_to_ollama ollama_chat w =
       (let request = build_request (settings w) (getSelection ed);
            response = ollama_chat request;
            s = for_await (parts response) (next_ref (heap w) + 3) (ed2, h4);
            w1 = w\<lparr>activeEditor := Some (fst s), heap := snd s,
                   chat_calls := chat_calls w @ [request]\<rparr>
        in (case ending response of Done \<Rightarrow> w1 | Thrown err \<Rightarrow> catch_block err w1),
        Some \<lparr>l_from = next_ref (heap w), l_to = next_ref (heap w) + 1,
              l_end = next_ref (heap w) + 2, l_outputPos = next_ref (heap w) + 3\<rparr>)"
    unfolding send_to_ollama_def
    using sel
    by (simp add: ed P(1) [of "heap w", folded h2_def] P(3) [of "heap w", folded h2_def, folded h3_def]
        o Let_def split_beta split: StreamEnd.splits)
  have d2: "doc ed2 = take (posToOffset (doc ed) (sel_from ed)) (doc ed)
                   @ dropWhile (\<lambda>c. c \<noteq> nl) (drop (posToOffset (doc ed) (sel_to ed)) (doc ed))"
    by (simp add: ed2_def x_def y_def)
  have r2: "length (replaced ed2) = length (replaced ed) + 2"
    by (simp add: ed2_def ed1_def)
  have c4: "cells h4 (next_ref (heap w)) = sel_from ed"
    by (simp add: h4_def new_obj_simps c3 n3)
  have c4': "cells h4 (next_ref (heap w) + 3) = sel_from ed"
    by (simp add: h4_def new_obj_simps c3 n3)
  have d2': "doc ed2 = x @ dropWhile (\<lambda>c. c \<noteq> nl) y"
    by (simp add: ed2_def)
  have v: "valid_pos (doc ed2) (sel_from ed)"
    unfolding d2' P(4) by (rule valid_pos_cursor_rule)
  have "posToOffset (doc ed2) (sel_from ed) = length x"
    unfolding d2' P(4) by (rule posToOffset_cursor_rule)
  then have p: "posToOffset (doc ed2) (sel_from ed) = posToOffset (doc ed) (sel_from ed)"
    by (simp only: P(5))
  from run d2 r2 c4 c4' v p show thesis
    by (rule that)
qed

section \<open>The example session\<close>

lemma example_editor_facts:
  "wf_editor example_editor"
  "getSelection example_editor = js ''SEL''"
  "getSelection example_editor \<noteq> []"
  "posToOffset (doc example_editor) (sel_from example_editor) = 3"
  "posToOffset (doc example_editor) (sel_to example_editor) = 6"
  by (simp_all add: example_editor_def wf_editor_def valid_pos_def offsetToPos_def
      posToOffset_def getSelection_def js_def nl_def split_on_Cons_case del: split_on.simps(2))

lemma example_world_facts:
  "activeEditor example_world = Some example_editor"
  "notices example_world = []"
  "console_errors example_world = []"
  "chat_calls example_world = []"
  "settings example_world = DEFAULT_SETTINGS"
  by (simp_all add: example_world_def)

section \<open>C1: the cursor update\<close>

text \<open>
  C1. For every chunk the loop applies, the cursor update follows the two-case rule. If
  the chunk contains no newline, the column of \<open>outputPos\<close> afterwards is the column
  before plus the chunk's length and the line is unchanged. If the chunk contains
  \<open>n \<ge> 1\<close> newlines, the line afterwards is the line before plus \<open>n\<close> and the column
  is the length of the text after the last newline of the chunk.
\<close>

theorem cursor_update_two_cases:
  fixes chunk :: jsstring and outputPos :: nat and editor :: Editor and h :: Heap
  defines "p' \<equiv> cells (snd (apply_chunk outputPos chunk (editor, h))) outputPos"
  shows "(nl \<notin> set chunk \<longrightarrow>
            ch p' = ch (cells h outputPos) + length chunk \<and> line p' = line (cells h outputPos))
       \<and> (nl \<in> set chunk \<longrightarrow>
            (\<exists>before after. chunk = before @ nl # after \<and> nl \<notin> set after
               \<and> line p' = line (cells h outputPos) + length (filter (\<lambda>c. c = nl) chunk)
               \<and> 1 \<le> length (filter (\<lambda>c. c = nl) chunk)
               \<and> ch p' = length after))"
proof (intro conjI impI)
  assume "nl \<notin> set chunk"
  then show "ch p' = ch (cells h outputPos) + length chunk"
    and "line p' = line (cells h outputPos)"
    by (simp_all add: p'_def apply_chunk_cell cursor_rule_def)
next
  assume m: "nl \<in> set chunk"
  then obtain before after where s: "chunk = before @ nl # after" "nl \<notin> set after"
    by (auto dest: split_list_last)
  then have "takeWhile (\<lambda>c. c \<noteq> nl) (rev chunk) = rev after"
    by (simp add: takeWhile_append takeWhile_no_sep)
  with m s filter_sep_pos [OF m]
  show "\<exists>before after. chunk = before @ nl # after \<and> nl \<notin> set after
          \<and> line p' = line (cells h outputPos) + length (filter (\<lambda>c. c = nl) chunk)
          \<and> 1 \<le> length (filter (\<lambda>c. c = nl) chunk)
          \<and> ch p' = length after"
    by (intro exI [of _ before] exI [of _ after])
       (simp add: p'_def apply_chunk_cell cursor_rule_def)
qed

text \<open>
  The rule at a chunk without newline and at a chunk with one, both applied at (2, 3).
\<close>

theorem cursor_update_two_cases_witness:
  "nl \<notin> set (js ''ab'')
   \<and> cells (snd (apply_chunk 0 (js ''ab'') (empty_buffer, heap_with \<lparr>line = 2, ch = 3\<rparr>))) 0
       = \<lparr>line = 2, ch = 5\<rparr>
   \<and> nl \<in> set (js ''a'' @ nl # js ''bc'')
   \<and> cells (snd (apply_chunk 0 (js ''a'' @ nl # js ''bc'')
               (empty_buffer, heap_with \<lparr>line = 2, ch = 3\<rparr>))) 0
       = \<lparr>line = 3, ch = 2\<rparr>"
proof -
  have a: "nl \<notin> set (js ''ab'')"
    by (simp add: js_def nl_def)
  have b: "nl \<in> set (js ''a'' @ nl # js ''bc'')"
    by simp
  have c: "length (filter (\<lambda>c. c = nl) (js ''a'' @ nl # js ''bc'')) = 1"
    by (simp add: js_def nl_def)
  have d: "\<And>before after. js ''a'' @ nl # js ''bc'' = before @ nl # after \<Longrightarrow> nl \<notin> set after
             \<Longrightarrow> length after = 2"
  proof -
    fix before after :: jsstring
    assume e: "js ''a'' @ nl # js ''bc'' = before @ nl # after" and n: "nl \<notin> set after"
    have "takeWhile (\<lambda>c. c \<noteq> nl) (rev (js ''a'' @ nl # js ''bc'')) = rev (js ''bc'')"
      by (simp add: js_def nl_def)
    moreover from n have "takeWhile (\<lambda>c. c \<noteq> nl) (rev (before @ nl # after)) = rev after"
      by (simp add: takeWhile_append takeWhile_no_sep)
    ultimately have "rev after = rev (js ''bc'')"
      using e by simp
    then show "length after = 2"
      by (simp add: js_def)
  qed
  let ?h = "heap_with \<lparr>line = 2, ch = 3\<rparr>"
  let ?p = "cells (snd (apply_chunk 0 (js ''ab'') (empty_buffer, ?h))) 0"
  let ?q = "cells (snd (apply_chunk 0 (js ''a'' @ nl # js ''bc'') (empty_buffer, ?h))) 0"
  have "ch ?p = ch (cells ?h 0) + length (js ''ab'') \<and> line ?p = line (cells ?h 0)"
    using a cursor_update_two_cases [where chunk = "js ''ab''" and outputPos = 0
      and editor = empty_buffer and h = ?h]
    by blast
  then have p: "?p = \<lparr>line = 2, ch = 5\<rparr>"
    by (intro EditorPosition.equality) (simp_all add: heap_with_def js_def)
  obtain before after where
    e: "js ''a'' @ nl # js ''bc'' = before @ nl # after" and n: "nl \<notin> set after"
    and l: "line ?q = line (cells ?h 0) + length (filter (\<lambda>c. c = nl) (js ''a'' @ nl # js ''bc''))"
    and k: "ch ?q = length after"
    using b cursor_update_two_cases [where chunk = "js ''a'' @ nl # js ''bc''" and outputPos = 0
      and editor = empty_buffer and h = ?h]
    by blast
  have "length after = 2"
    using e n by (rule d)
  with k have k': "ch ?q = 2"
    by simp
  from l have l': "line ?q = 3"
    unfolding c by (simp add: heap_with_def)
  from l' k' have q: "?q = \<lparr>line = 3, ch = 2\<rparr>"
    by (intro EditorPosition.equality) simp_all
  show ?thesis
    by (intro conjI) (rule a, rule p, rule b, rule q)
qed

section \<open>C2: the example run\<close>

text \<open>
  The run of the specification's example: the three chunks applied to the empty buffer
  with the cursor object at (0, 0).
\<close>

lemma hello_world_run:
  "doc (fst (for_await [js ''Hello, '', js ''world'', js ''!'' @ nl # js ''Next line.''] 0
          (empty_buffer, heap_with origin)))
     = js ''Hello, world!'' @ nl # js ''Next line.''"
  "cells (snd (for_await [js ''Hello, '', js ''world'', js ''!'' @ nl # js ''Next line.''] 0
          (empty_buffer, heap_with origin))) 0
     = \<lparr>line = 1, ch = 10\<rparr>"
  by (simp_all add: js_def nl_def empty_buffer_def heap_with_def origin_def apply_chunk_def
      replaceRange_def posToOffset_def set_ch_def set_line_def
      split_on_Cons_case del: split_on.simps(2))

text \<open>
  C2, as amended. Applying the chunks \<open>"Hello, "\<close>, \<open>"world"\<close>, \<open>"!\nNext line."\<close> in
  order, starting at cursor (0, 0) on an empty buffer, yields the buffer content
  \<open>"Hello, world!\nNext line."\<close> and the final cursor (1, 10): the text after the
  newline, \<open>"Next line."\<close>, has ten characters.
\<close>

theorem hello_world_cursor_1_10:
  "doc (fst (for_await [js ''Hello, '', js ''world'', js ''!'' @ nl # js ''Next line.''] 0
          (empty_buffer, heap_with origin)))
     = js ''Hello, world!'' @ nl # js ''Next line.''
   \<and> cells (snd (for_await [js ''Hello, '', js ''world'', js ''!'' @ nl # js ''Next line.''] 0
          (empty_buffer, heap_with origin))) 0
     = \<lparr>line = 1, ch = 10\<rparr>"
  unfolding hello_world_run by simp

text \<open>
  C2, as stated, fails: the run does not end with the buffer content
  \<open>"Hello, world!\nNext line."\<close> and the cursor at (1, 9).
\<close>

theorem hello_world_cursor_not_1_9:
  "\<not> (doc (fst (for_await [js ''Hello, '', js ''world'', js ''!'' @ nl # js ''Next line.''] 0
             (empty_buffer, heap_with origin)))
        = js ''Hello, world!'' @ nl # js ''Next line.''
      \<and> cells (snd (for_await [js ''Hello, '', js ''world'', js ''!'' @ nl # js ''Next line.''] 0
             (empty_buffer, heap_with origin))) 0
        = \<lparr>line = 1, ch = 9\<rparr>)"
  unfolding hello_world_run by simp

section \<open>C3: the cursor follows the inserted text\<close>

text \<open>
  C3. Let the cursor object hold a position of the buffer, at offset \<open>n\<close>. For every
  chunk sequence \<open>cs\<close> and every \<open>k \<le> length cs\<close>, the loop over \<open>cs\<close> passes through
  the state \<open>s\<close> reached after the first \<open>k\<close> chunks and continues from it with the
  remaining ones; in \<open>s\<close> the buffer is the old one with the chunks \<open>1..k\<close> inserted at
  \<open>n\<close>, whole and in arrival order; the editor received one insertion per chunk, in
  that order; and the cursor is the buffer position of offset
  \<open>n + length (chunks 1..k)\<close>, immediately after the inserted text.
\<close>

theorem cursor_follows_inserted_text:
  fixes cs :: "jsstring list"
  assumes "valid_pos (doc e) (cells h r)" and "k \<le> length cs"
  defines "n \<equiv> posToOffset (doc e) (cells h r)"
  defines "s \<equiv> for_await (take k cs) r (e, h)"
  shows "for_await cs r (e, h) = for_await (drop k cs) r s
       \<and> doc (fst s) = take n (doc e) @ concat (take k cs) @ drop n (doc e)
       \<and> map fst (replaced (fst s)) = map fst (replaced e) @ take k cs
       \<and> valid_pos (doc (fst s)) (cells (snd s) r)
       \<and> posToOffset (doc (fst s)) (cells (snd s) r) = n + length (concat (take k cs))
       \<and> cells (snd s) r = offsetToPos (doc (fst s)) (n + length (concat (take k cs)))"
proof -
  have "for_await (take k cs @ drop k cs) r (e, h) = for_await (drop k cs) r s"
    unfolding s_def by (rule for_await_append)
  then have a: "for_await cs r (e, h) = for_await (drop k cs) r s"
    by simp
  have b: "doc (fst s) = take n (doc e) @ concat (take k cs) @ drop n (doc e)"
    unfolding s_def n_def using assms(1) by (rule for_await_invariant(1))
  have c: "map fst (replaced (fst s)) = map fst (replaced e) @ take k cs"
    unfolding s_def using assms(1) by (rule for_await_invariant(5))
  have d: "valid_pos (doc (fst s)) (cells (snd s) r)"
    unfolding s_def using assms(1) by (rule for_await_invariant(4))
  have f: "posToOffset (doc (fst s)) (cells (snd s) r) = n + length (concat (take k cs))"
    unfolding s_def n_def using assms(1) by (rule for_await_invariant(3))
  from d have "cells (snd s) r = offsetToPos (doc (fst s)) (posToOffset (doc (fst s)) (cells (snd s) r))"
    by (simp add: valid_pos_def)
  then have g: "cells (snd s) r = offsetToPos (doc (fst s)) (n + length (concat (take k cs)))"
    by (simp only: f)
  from a b c d f g show ?thesis
    by blast
qed

text \<open>
  The invariant after the first of two chunks, inserted at (1, 1) of \<open>"ab\ncd"\<close>.
\<close>

theorem cursor_follows_inserted_text_witness:
  "valid_pos (js ''ab'' @ nl # js ''cd'') \<lparr>line = 1, ch = 1\<rparr>
   \<and> (1::nat) \<le> length [js ''x'' @ nl # js ''y'', js ''z'']
   \<and> doc (fst (for_await (take 1 [js ''x'' @ nl # js ''y'', js ''z'']) 0
        (empty_buffer\<lparr>doc := js ''ab'' @ nl # js ''cd''\<rparr>, heap_with \<lparr>line = 1, ch = 1\<rparr>)))
     = js ''ab'' @ nl # js ''cx'' @ nl # js ''yd''
   \<and> cells (snd (for_await (take 1 [js ''x'' @ nl # js ''y'', js ''z'']) 0
        (empty_buffer\<lparr>doc := js ''ab'' @ nl # js ''cd''\<rparr>, heap_with \<lparr>line = 1, ch = 1\<rparr>))) 0
     = \<lparr>line = 2, ch = 1\<rparr>"
proof -
  let ?e = "empty_buffer\<lparr>doc := js ''ab'' @ nl # js ''cd''\<rparr>"
  let ?h = "heap_with \<lparr>line = 1, ch = 1\<rparr>"
  let ?cs = "[js ''x'' @ nl # js ''y'', js ''z'']"
  let ?s = "for_await (take 1 ?cs) 0 (?e, ?h)"
  have n: "posToOffset (doc ?e) (cells ?h 0) = 4"
    by (simp add: js_def nl_def heap_with_def posToOffset_def split_on_Cons_case del: split_on.simps(2))
  have v0: "valid_pos (js ''ab'' @ nl # js ''cd'') \<lparr>line = 1, ch = 1\<rparr>"
    by (simp add: js_def nl_def valid_pos_def posToOffset_def offsetToPos_def
        split_on_Cons_case del: split_on.simps(2))
  then have v: "valid_pos (doc ?e) (cells ?h 0)"
    by (simp add: heap_with_def)
  have k: "(1::nat) \<le> length ?cs"
    by simp
  note T = cursor_follows_inserted_text [OF v k, unfolded n]
  have "doc (fst ?s) = take 4 (doc ?e) @ concat (take 1 ?cs) @ drop 4 (doc ?e)"
    using T by (elim conjE)
  also have "\<dots> = js ''ab'' @ nl # js ''cx'' @ nl # js ''yd''"
    by (simp add: js_def)
  finally have d: "doc (fst ?s) = js ''ab'' @ nl # js ''cx'' @ nl # js ''yd''" .
  have "cells (snd ?s) 0 = offsetToPos (doc (fst ?s)) (4 + length (concat (take 1 ?cs)))"
    using T by (elim conjE)
  also have "\<dots> = \<lparr>line = 2, ch = 1\<rparr>"
    unfolding d by (simp add: js_def nl_def offsetToPos_def split_on_Cons_case del: split_on.simps(2))
  finally have c: "cells (snd ?s) 0 = \<lparr>line = 2, ch = 1\<rparr>" .
  show ?thesis
    by (intro conjI) (rule v0, rule k, rule d, rule c)
qed

section \<open>C4 and C5: the catch block\<close>

text \<open>
  C4. If the stream ends by throwing an error whose name is \<open>"AbortError"\<close>, then,
  however many chunks were applied before, the handler adds exactly the notice
  \<open>"Aborted all requests"\<close>, so no generic-error notice, and logs nothing.
\<close>

theorem abort_notice_only:
  assumes "activeEditor w = Some ed" and "wf_editor ed" and "getSelection ed \<noteq> []"
    and "ending (ollama_chat (build_request (settings w) (getSelection ed))) = Thrown err"
    and "name err = js ''AbortError''"
  shows "notices (fst (send_to_ollama ollama_chat w)) = notices w @ [js ''Aborted all requests'']
       \<and> console_errors (fst (send_to_ollama ollama_chat w)) = console_errors w"
proof -
  from assms(1,2,3) obtain ed2 h4 where
    "send_to_ollama ollama_chat w =
       (let request = build_request (settings w) (getSelection ed);
            response = ollama_chat request;
            s = for_await (parts response) (next_ref (heap w) + 3) (ed2, h4);
            w1 = w\<lparr>activeEditor := Some (fst s), heap := snd s,
                   chat_calls := chat_calls w @ [request]\<rparr>
        in (case ending response of Done \<Rightarrow> w1 | Thrown err \<Rightarrow> catch_block err w1),
        Some \<lparr>l_from = next_ref (heap w), l_to = next_ref (heap w) + 1,
              l_end = next_ref (heap w) + 2, l_outputPos = next_ref (heap w) + 3\<rparr>)"
    by (rule send_to_ollama_session)
  with assms(4,5) show ?thesis
    by (simp add: Let_def catch_block_def Notice_def ABORTED_def)
qed

text \<open>
  The example session, aborted after two parts.
\<close>

theorem abort_notice_only_witness:
  "activeEditor example_world = Some example_editor \<and> wf_editor example_editor
   \<and> getSelection example_editor \<noteq> []
   \<and> ending (example_chat (js ''AbortError'')
         (build_request (settings example_world) (getSelection example_editor)))
       = Thrown \<lparr>name = js ''AbortError''\<rparr>
   \<and> name \<lparr>name = js ''AbortError''\<rparr> = js ''AbortError''
   \<and> notices (fst (send_to_ollama (example_chat (js ''AbortError'')) example_world))
       = [js ''Aborted all requests'']
   \<and> console_errors (fst (send_to_ollama (example_chat (js ''AbortError'')) example_world)) = []"
proof -
  have e: "ending (example_chat (js ''AbortError'')
         (build_request (settings example_world) (getSelection example_editor)))
       = Thrown \<lparr>name = js ''AbortError''\<rparr>"
    by (simp add: example_chat_def)
  have n: "name \<lparr>name = js ''AbortError''\<rparr> = js ''AbortError''"
    by simp
  note T = abort_notice_only [where ollama_chat = "example_chat (js ''AbortError'')"
      and w = example_world and ed = example_editor and err = "\<lparr>name = js ''AbortError''\<rparr>",
      OF example_world_facts(1) example_editor_facts(1) example_editor_facts(3) e n,
      unfolded example_world_facts(2,3) append_Nil]
  from example_world_facts(1) example_editor_facts(1,3) e n T show ?thesis
    by (intro conjI) (erule conjunct1 conjunct2 | assumption)+
qed

text \<open>
  C5. If the stream ends by throwing an error of any other name, the handler logs the
  error, adds exactly the notice \<open>"\<dots> Error communicating with Ollama."\<close> (its first
  character is U+274C), and rolls nothing back: the buffer holds every chunk applied
  before the failure, in order, at the selection start.
\<close>

theorem generic_failure_keeps_partial_output:
  assumes "activeEditor w = Some ed" and "wf_editor ed" and "getSelection ed \<noteq> []"
    and "ollama_chat (build_request (settings w) (getSelection ed))
           = \<lparr>parts = cs, ending = Thrown err\<rparr>"
    and "name err \<noteq> js ''AbortError''"
  shows "console_errors (fst (send_to_ollama ollama_chat w)) = console_errors w @ [err]
       \<and> notices (fst (send_to_ollama ollama_chat w))
           = notices w @ [0x274C # js '' Error communicating with Ollama.'']
       \<and> (\<exists>ed3. activeEditor (fst (send_to_ollama ollama_chat w)) = Some ed3
            \<and> doc ed3 = take (posToOffset (doc ed) (sel_from ed)) (doc ed) @ concat cs
                 @ dropWhile (\<lambda>c. c \<noteq> nl) (drop (posToOffset (doc ed) (sel_to ed)) (doc ed)))"
proof -
  let ?a = "posToOffset (doc ed) (sel_from ed)"
  from assms(1,2,3) obtain ed2 h4 where
    run: "send_to_ollama ollama_chat w =
       (let request = build_request (settings w) (getSelection ed);
            response = ollama_chat request;
            s = for_await (parts response) (next_ref (heap w) + 3) (ed2, h4);
            w1 = w\<lparr>activeEditor := Some (fst s), heap := snd s,
                   chat_calls := chat_calls w @ [request]\<rparr>
        in (case ending response of Done \<Rightarrow> w1 | Thrown err \<Rightarrow> catch_block err w1),
        Some \<lparr>l_from = next_ref (heap w), l_to = next_ref (heap w) + 1,
              l_end = next_ref (heap w) + 2, l_outputPos = next_ref (heap w) + 3\<rparr>)"
    and d2: "doc ed2 = take ?a (doc ed)
                   @ dropWhile (\<lambda>c. c \<noteq> nl) (drop (posToOffset (doc ed) (sel_to ed)) (doc ed))"
    and c4: "cells h4 (next_ref (heap w) + 3) = sel_from ed"
    and v: "valid_pos (doc ed2) (sel_from ed)"
    and p: "posToOffset (doc ed2) (sel_from ed) = ?a"
    by (rule send_to_ollama_session)
  have a: "?a \<le> length (doc ed)"
    by (rule posToOffset_le)
  from v have "valid_pos (doc ed2) (cells h4 (next_ref (heap w) + 3))"
    by (simp add: c4)
  then have "doc (fst (for_await cs (next_ref (heap w) + 3) (ed2, h4)))
      = take (posToOffset (doc ed2) (cells h4 (next_ref (heap w) + 3))) (doc ed2) @ concat cs
        @ drop (posToOffset (doc ed2) (cells h4 (next_ref (heap w) + 3))) (doc ed2)"
    by (rule for_await_invariant(1))
  with a have d3: "doc (fst (for_await cs (next_ref (heap w) + 3) (ed2, h4)))
      = take ?a (doc ed) @ concat cs
        @ dropWhile (\<lambda>c. c \<noteq> nl) (drop (posToOffset (doc ed) (sel_to ed)) (doc ed))"
    by (simp add: c4 p) (simp add: d2)
  from run assms(4,5) d3 show ?thesis
    by (simp add: Let_def catch_block_def Notice_def console_error_def GENERIC_ERROR_def)
qed

text \<open>
  The example session, failing with a \<open>TypeError\<close> after two parts.
\<close>

theorem generic_failure_keeps_partial_output_witness:
  "activeEditor example_world = Some example_editor \<and> wf_editor example_editor
   \<and> getSelection example_editor \<noteq> []
   \<and> example_chat (js ''TypeError'')
         (build_request (settings example_world) (getSelection example_editor))
       = \<lparr>parts = [js ''Hi'', nl # js ''there''], ending = Thrown \<lparr>name = js ''TypeError''\<rparr>\<rparr>
   \<and> name \<lparr>name = js ''TypeError''\<rparr> \<noteq> js ''AbortError''
   \<and> console_errors (fst (send_to_ollama (example_chat (js ''TypeError'')) example_world))
       = [\<lparr>name = js ''TypeError''\<rparr>]
   \<and> notices (fst (send_to_ollama (example_chat (js ''TypeError'')) example_world))
       = [0x274C # js '' Error communicating with Ollama.'']
   \<and> (\<exists>ed3. activeEditor (fst (send_to_ollama (example_chat (js ''TypeError'')) example_world))
              = Some ed3
            \<and> doc ed3 = js ''ab Hi'' @ nl # js ''there'' @ nl # js ''xyz'')"
proof -
  have e: "example_chat (js ''TypeError'')
         (build_request (settings example_world) (getSelection example_editor))
       = \<lparr>parts = [js ''Hi'', nl # js ''there''], ending = Thrown \<lparr>name = js ''TypeError''\<rparr>\<rparr>"
    by (simp add: example_chat_def)
  have n: "name \<lparr>name = js ''TypeError''\<rparr> \<noteq> js ''AbortError''"
    by (simp add: js_def)
  have d: "take 3 (doc example_editor) @ concat [js ''Hi'', nl # js ''there'']
             @ dropWhile (\<lambda>c. c \<noteq> nl) (drop 6 (doc example_editor))
           = js ''ab Hi'' @ nl # js ''there'' @ nl # js ''xyz''"
    by (simp add: example_editor_def js_def nl_def)
  note T = generic_failure_keeps_partial_output [where ollama_chat = "example_chat (js ''TypeError'')"
      and w = example_world and ed = example_editor and err = "\<lparr>name = js ''TypeError''\<rparr>"
      and cs = "[js ''Hi'', nl # js ''there'']",
      OF example_world_facts(1) example_editor_facts(1) example_editor_facts(3) e n,
      unfolded example_world_facts(2,3) append_Nil example_editor_facts(4,5) d]
  show ?thesis
    by (intro conjI)
       (rule example_world_facts(1) example_editor_facts(1,3) e n T [THEN conjunct1]
          T [THEN conjunct2, THEN conjunct1] T [THEN conjunct2, THEN conjunct2])+
qed

section \<open>C6: precondition failures\<close>

text \<open>
  C6. Without an active editor the handler adds the notice \<open>"No active editor found."\<close>,
  and with an empty selection the notice
  \<open>"Please select some text to send to Ollama."\<close>; in both cases nothing else changes:
  the buffer is not touched and the generation client's \<open>chat\<close> is not called.
\<close>

theorem precondition_failure_leaves_buffer:
  "(activeEditor w = None \<longrightarrow>
      send_to_ollama ollama_chat w
        = (w\<lparr>notices := notices w @ [js ''No active editor found.'']\<rparr>, None))
   \<and> (activeEditor w = Some ed \<and> getSelection ed = [] \<longrightarrow>
      send_to_ollama ollama_chat w
        = (w\<lparr>notices := notices w @ [js ''Please select some text to send to Ollama.'']\<rparr>, None))"
  by (simp add: send_to_ollama_def Notice_def NO_EDITOR_def NO_SELECTION_def)

text \<open>
  The example plugin without an editor, and with an editor whose selection is empty.
\<close>

theorem precondition_failure_leaves_buffer_witness:
  "activeEditor (example_world\<lparr>activeEditor := None\<rparr>) = None
   \<and> send_to_ollama (example_chat []) (example_world\<lparr>activeEditor := None\<rparr>)
       = (example_world\<lparr>activeEditor := None, notices := [js ''No active editor found.'']\<rparr>,
          None)
   \<and> activeEditor (example_world\<lparr>activeEditor := Some empty_buffer\<rparr>) = Some empty_buffer
   \<and> getSelection empty_buffer = []
   \<and> send_to_ollama (example_chat []) (example_world\<lparr>activeEditor := Some empty_buffer\<rparr>)
       = (example_world\<lparr>activeEditor := Some empty_buffer,
            notices := [js ''Please select some text to send to Ollama.'']\<rparr>, None)"
proof -
  let ?w0 = "example_world\<lparr>activeEditor := None\<rparr>"
  let ?w1 = "example_world\<lparr>activeEditor := Some empty_buffer\<rparr>"
  have a: "activeEditor ?w0 = None"
    by simp
  have b: "activeEditor ?w1 = Some empty_buffer"
    by simp
  have c: "getSelection empty_buffer = []"
    by (simp add: getSelection_def empty_buffer_def)
  have n0: "notices ?w0 = []" and n1: "notices ?w1 = []"
    by (simp_all add: example_world_def)
  note T0 = precondition_failure_leaves_buffer [where w = ?w0 and ollama_chat = "example_chat []",
      THEN conjunct1, rule_format, OF a, unfolded n0 append_Nil]
  note T1 = precondition_failure_leaves_buffer [where w = ?w1 and ed = empty_buffer
      and ollama_chat = "example_chat []",
      THEN conjunct2, rule_format, OF conjI [OF b c], unfolded n1 append_Nil]
  from T0 have T0': "send_to_ollama (example_chat []) ?w0
       = (example_world\<lparr>activeEditor := None, notices := [js ''No active editor found.'']\<rparr>,
          None)"
    by simp
  from T1 have T1': "send_to_ollama (example_chat []) ?w1
       = (example_world\<lparr>activeEditor := Some empty_buffer,
            notices := [js ''Please select some text to send to Ollama.'']\<rparr>, None)"
    by simp
  show ?thesis
    by (intro conjI) (rule a b c T0' T1')+
qed

section \<open>C7: the placeholder\<close>

text \<open>
  C7. On a well-formed editor the placeholder step first replaces the selected range with
  the literal \<open>"\<dots> Generating response..."\<close> (its first character is U+23F3), then
  reads the starting line as it is after the insertion, \<open>l1\<close>, and replaces the span
  from the selection start to the end of that line by the empty string. The lines of the
  buffer afterwards are those after the insertion, except that the starting line keeps
  only what precedes the selection-start column.
\<close>

theorem placeholder_inserted_then_line_cleared:
  fixes h :: Heap
  assumes "wf_editor ed"
  shows "\<exists>ed1 h2 from to l1 ed2 h3 end.
      PLACEHOLDER = 0x23F3 # js '' Generating response...''
    \<and> insert_placeholder ed h = (ed1, h2, from, to)
    \<and> doc ed1 = take (posToOffset (doc ed) (sel_from ed)) (doc ed) @ PLACEHOLDER
                  @ drop (posToOffset (doc ed) (sel_to ed)) (doc ed)
    \<and> replaced ed1 = replaced ed @ [(PLACEHOLDER, sel_from ed, Some (sel_to ed))]
    \<and> getLine ed1 (line (sel_from ed)) = Some l1
    \<and> remove_placeholder from ed1 h2 = Some (ed2, h3, end)
    \<and> replaced ed2
        = replaced ed1 @ [([], sel_from ed, Some \<lparr>line = line (sel_from ed), ch = length l1\<rparr>)]
    \<and> split_on nl (doc ed2)
        = (split_on nl (doc ed1))[line (sel_from ed) := take (ch (sel_from ed)) l1]"
proof -
  define x where "x = take (posToOffset (doc ed) (sel_from ed)) (doc ed)"
  define y where "y = drop (posToOffset (doc ed) (sel_to ed)) (doc ed)"
  define l1 where "l1 = last (split_on nl x) @ PLACEHOLDER @ takeWhile (\<lambda>c. c \<noteq> nl) y"
  define ed1 where "ed1 = ed\<lparr>doc := x @ PLACEHOLDER @ y,
                      replaced := replaced ed @ [(PLACEHOLDER, sel_from ed, Some (sel_to ed))]\<rparr>"
  define ed2 where "ed2 = ed1\<lparr>doc := x @ dropWhile (\<lambda>c. c \<noteq> nl) y,
     replaced := replaced ed1 @ [([], sel_from ed, Some \<lparr>line = line (sel_from ed), ch = length l1\<rparr>)]\<rparr>"
  note P = placeholder_steps [OF assms x_def y_def l1_def ed1_def ed2_def]
  have n: "line (sel_from ed) = length (butlast (split_on nl x))"
    unfolding P(4) by (rule length_butlast_split_on [symmetric])
  have k: "take (ch (sel_from ed)) l1 = last (split_on nl x)"
    by (simp add: P(4) ch_cursor_rule_origin l1_def)
  have s1: "split_on nl (doc ed1)
      = butlast (split_on nl x) @ l1 # tl (split_on nl y)"
    using nl_notin_PLACEHOLDER
    by (simp add: ed1_def l1_def split_on_at_cursor [of nl x] takeWhile_append tl_split_on_prefix)
  have s2: "split_on nl (doc ed2)
      = butlast (split_on nl x) @ last (split_on nl x) # tl (split_on nl y)"
    by (simp add: ed2_def split_on_at_cursor [of nl x] takeWhile_dropWhile_sep
        tl_split_on_dropWhile)
  have s: "split_on nl (doc ed2)
      = (split_on nl (doc ed1))[line (sel_from ed) := take (ch (sel_from ed)) l1]"
    unfolding s1 s2 n k by (simp add: list_update_append)
  have "PLACEHOLDER = 0x23F3 # js '' Generating response...''"
    by (simp add: PLACEHOLDER_def)
  with P(1) [of h] P(2) P(3) [of h] s show ?thesis
    by (simp add: ed1_def ed2_def x_def y_def)
qed

text \<open>
  The placeholder step on the example editor: \<open>" cd"\<close>, which followed the selection on
  its line, is cleared with the placeholder.
\<close>

theorem placeholder_inserted_then_line_cleared_witness:
  "wf_editor example_editor
   \<and> (\<exists>ed1 h2 from to ed2 h3 end.
         insert_placeholder example_editor (heap_with origin) = (ed1, h2, from, to)
       \<and> remove_placeholder from ed1 h2 = Some (ed2, h3, end)
       \<and> split_on nl (doc ed1) = [js ''ab '' @ PLACEHOLDER @ js '' cd'', js ''xyz'']
       \<and> split_on nl (doc ed2) = [js ''ab '', js ''xyz''])"
proof -
  obtain ed1 h2 "from" to l1 ed2 h3 "end" where
    i: "insert_placeholder example_editor (heap_with origin) = (ed1, h2, from, to)"
    and d1: "doc ed1 = take (posToOffset (doc example_editor) (sel_from example_editor))
                         (doc example_editor) @ PLACEHOLDER
                  @ drop (posToOffset (doc example_editor) (sel_to example_editor))
                      (doc example_editor)"
    and g: "getLine ed1 (line (sel_from example_editor)) = Some l1"
    and r: "remove_placeholder from ed1 h2 = Some (ed2, h3, end)"
    and s: "split_on nl (doc ed2)
        = (split_on nl (doc ed1))[line (sel_from example_editor)
            := take (ch (sel_from example_editor)) l1]"
    using placeholder_inserted_then_line_cleared [OF example_editor_facts(1),
        where h = "heap_with origin"]
    by blast
  have L: "split_on nl (doc ed1) = [js ''ab '' @ PLACEHOLDER @ js '' cd'', js ''xyz'']"
    unfolding d1 example_editor_facts(4,5)
    by (simp add: example_editor_def PLACEHOLDER_def js_def nl_def split_on_Cons_case
        del: split_on.simps(2))
  from g have l1: "l1 = js ''ab '' @ PLACEHOLDER @ js '' cd''"
    by (simp add: getLine_def Let_def L example_editor_def)
  have "split_on nl (doc ed2) = [js ''ab '', js ''xyz'']"
    unfolding s L l1 by (simp add: example_editor_def js_def)
  with i r L show ?thesis
    using example_editor_facts(1) by blast
qed

section \<open>C8: the settings\<close>

text \<open>
  C8. Saving the settings \<open>{model: m1, systemPrompt: p1}\<close> and then loading yields
  exactly these settings, for all strings \<open>m1\<close> and \<open>p1\<close>; loading when nothing was
  saved yields the defaults \<open>{model: "llama3.2", systemPrompt: ""}\<close>; and loading merges
  the stored data over the defaults field by field.
\<close>

theorem settings_round_trip:
  "settings (loadSettings (saveSettings (w\<lparr>settings := \<lparr>model = m1, systemPrompt = p1\<rparr>\<rparr>)))
     = \<lparr>model = m1, systemPrompt = p1\<rparr>
   \<and> settings (loadSettings (w\<lparr>data := None\<rparr>))
     = \<lparr>model = js ''llama3.2'', systemPrompt = []\<rparr>
   \<and> settings (loadSettings (w\<lparr>data := Some d\<rparr>))
     = \<lparr>model = (case stored_model d of None \<Rightarrow> js ''llama3.2'' | Some v \<Rightarrow> v),
        systemPrompt = (case stored_systemPrompt d of None \<Rightarrow> [] | Some v \<Rightarrow> v)\<rparr>"
  by (simp add: loadSettings_def saveSettings_def Object_assign_def DEFAULT_SETTINGS_def
      split: option.splits)

section \<open>C9: the request\<close>

text \<open>
  C9. On a non-empty selection the handler calls \<open>chat\<close> once, with the model of the
  settings and exactly one message, of role \<open>"user"\<close>, whose content is the system prompt
  of the settings, two newline characters, and the selected text as the editor had it
  when the handler started.
\<close>

theorem request_from_settings_and_selection:
  assumes "activeEditor w = Some ed" and "wf_editor ed" and "getSelection ed \<noteq> []"
  shows "chat_calls (fst (send_to_ollama ollama_chat w))
     = chat_calls w
       @ [\<lparr>req_model = model (settings w),
           req_messages = [\<lparr>role = js ''user'',
                             content = systemPrompt (settings w) @ [nl, nl] @ getSelection ed\<rparr>],
           req_stream = True\<rparr>]"
proof -
  from assms obtain ed2 h4 where
    "send_to_ollama ollama_chat w =
       (let request = build_request (settings w) (getSelection ed);
            response = ollama_chat request;
            s = for_await (parts response) (next_ref (heap w) + 3) (ed2, h4);
            w1 = w\<lparr>activeEditor := Some (fst s), heap := snd s,
                   chat_calls := chat_calls w @ [request]\<rparr>
        in (case ending response of Done \<Rightarrow> w1 | Thrown err \<Rightarrow> catch_block err w1),
        Some \<lparr>l_from = next_ref (heap w), l_to = next_ref (heap w) + 1,
              l_end = next_ref (heap w) + 2, l_outputPos = next_ref (heap w) + 3\<rparr>)"
    by (rule send_to_ollama_session)
  then show ?thesis
    by (simp add: Let_def catch_block_frame build_request_def)
qed

text \<open>
  The request of the example session.
\<close>

theorem request_from_settings_and_selection_witness:
  "activeEditor example_world = Some example_editor \<and> wf_editor example_editor
   \<and> getSelection example_editor \<noteq> []
   \<and> chat_calls (fst (send_to_ollama (example_chat []) example_world))
       = [\<lparr>req_model = js ''llama3.2'',
           req_messages = [\<lparr>role = js ''user'', content = [nl, nl] @ js ''SEL''\<rparr>],
           req_stream = True\<rparr>]"
proof -
  have s: "model (settings example_world) = js ''llama3.2''"
    "systemPrompt (settings example_world) = []"
    by (simp_all add: example_world_def DEFAULT_SETTINGS_def)
  note T = request_from_settings_and_selection [where ollama_chat = "example_chat []",
      OF example_world_facts(1) example_editor_facts(1) example_editor_facts(3),
      unfolded example_world_facts(4) s example_editor_facts(2) append_Nil]
  show ?thesis
    by (intro conjI) (rule example_world_facts(1) example_editor_facts(1,3) T)+
qed

section \<open>C10: the selection start is not modified\<close>

text \<open>
  C10. The cursor object \<open>outputPos\<close> is a new object that starts as a copy of the
  object \<open>from\<close>. For every chunk sequence, after any number of chunks the object
  \<open>from\<close> still holds the selection start, and every chunk is inserted at a position at
  or after the selection start.
\<close>

theorem selection_start_preserved:
  fixes ollama_chat :: "ChatRequest \<Rightarrow> ChatStream"
  assumes "activeEditor w = Some ed" and "wf_editor ed" and "getSelection ed \<noteq> []"
  defines "cs \<equiv> parts (ollama_chat (build_request (settings w) (getSelection ed)))"
  shows "\<exists>L ed2 h4.
      snd (send_to_ollama ollama_chat w) = Some L
    \<and> l_outputPos L \<noteq> l_from L
    \<and> cells h4 (l_from L) = sel_from ed
    \<and> cells h4 (l_outputPos L) = sel_from ed
    \<and> activeEditor (fst (send_to_ollama ollama_chat w))
        = Some (fst (for_await cs (l_outputPos L) (ed2, h4)))
    \<and> heap (fst (send_to_ollama ollama_chat w)) = snd (for_await cs (l_outputPos L) (ed2, h4))
    \<and> (\<forall>k\<le>length cs.
          cells (snd (for_await (take k cs) (l_outputPos L) (ed2, h4))) (l_from L) = sel_from ed)
    \<and> (\<exists>ins. replaced (fst (for_await cs (l_outputPos L) (ed2, h4))) = replaced ed2 @ ins
          \<and> map fst ins = cs
          \<and> (\<forall>(c, p, q)\<in>set ins. q = None \<and> pos_le (sel_from ed) p))"
proof -
  let ?f = "next_ref (heap w)"
  let ?L = "\<lparr>l_from = ?f, l_to = ?f + 1, l_end = ?f + 2, l_outputPos = ?f + 3\<rparr>"
  from assms(1,2,3) obtain ed2 h4 where
    run: "send_to_ollama ollama_chat w =
       (let request = build_request (settings w) (getSelection ed);
            response = ollama_chat request;
            s = for_await (parts response) (next_ref (heap w) + 3) (ed2, h4);
            w1 = w\<lparr>activeEditor := Some (fst s), heap := snd s,
                   chat_calls := chat_calls w @ [request]\<rparr>
        in (case ending response of Done \<Rightarrow> w1 | Thrown err \<Rightarrow> catch_block err w1), Some ?L)"
    and c: "cells h4 ?f = sel_from ed"
    and c': "cells h4 (?f + 3) = sel_from ed"
    by (rule send_to_ollama_session)
  have 1: "snd (send_to_ollama ollama_chat w) = Some ?L"
    by (simp add: run)
  have 2: "activeEditor (fst (send_to_ollama ollama_chat w))
        = Some (fst (for_await cs (?f + 3) (ed2, h4)))"
    by (simp add: run Let_def catch_block_frame cs_def)
  have 3: "heap (fst (send_to_ollama ollama_chat w)) = snd (for_await cs (?f + 3) (ed2, h4))"
    by (simp add: run Let_def catch_block_frame cs_def)
  have 4: "\<forall>k\<le>length cs. cells (snd (for_await (take k cs) (?f + 3) (ed2, h4))) ?f = sel_from ed"
    by (simp add: for_await_other_cells c)
  have 5: "\<exists>ins. replaced (fst (for_await cs (?f + 3) (ed2, h4))) = replaced ed2 @ ins
          \<and> map fst ins = cs
          \<and> (\<forall>(c, p, q)\<in>set ins. q = None \<and> pos_le (sel_from ed) p)"
    using for_await_inserts [of cs "?f + 3" ed2 h4] by (simp add: c')
  from 1 2 3 4 5 c c' show ?thesis
    by (intro exI [of _ ?L] exI [of _ ed2] exI [of _ h4]) simp
qed

text \<open>
  The example session: after it the object \<open>from\<close> holds (0, 3).
\<close>

theorem selection_start_preserved_witness:
  "activeEditor example_world = Some example_editor \<and> wf_editor example_editor
   \<and> getSelection example_editor \<noteq> []
   \<and> (\<exists>L. snd (send_to_ollama (example_chat []) example_world) = Some L
         \<and> l_outputPos L \<noteq> l_from L
         \<and> cells (heap (fst (send_to_ollama (example_chat []) example_world))) (l_from L)
             = \<lparr>line = 0, ch = 3\<rparr>)"
proof -
  let ?cs = "parts (example_chat [] (build_request (settings example_world)
                (getSelection example_editor)))"
  obtain L ed2 h4 where
    a: "snd (send_to_ollama (example_chat []) example_world) = Some L"
    and b: "l_outputPos L \<noteq> l_from L"
    and hp: "heap (fst (send_to_ollama (example_chat []) example_world))
              = snd (for_await ?cs (l_outputPos L) (ed2, h4))"
    and k: "\<forall>k\<le>length ?cs.
          cells (snd (for_await (take k ?cs) (l_outputPos L) (ed2, h4))) (l_from L)
            = sel_from example_editor"
    using selection_start_preserved [where ollama_chat = "example_chat []",
        OF example_world_facts(1) example_editor_facts(1) example_editor_facts(3)]
    by blast
  from k have "cells (snd (for_await (take (length ?cs) ?cs) (l_outputPos L) (ed2, h4))) (l_from L)
            = sel_from example_editor"
    by blast
  then have "cells (heap (fst (send_to_ollama (example_chat []) example_world))) (l_from L)
             = \<lparr>line = 0, ch = 3\<rparr>"
    by (simp add: hp example_editor_def)
  with a b show ?thesis
    using example_world_facts(1) example_editor_facts(1,3) by blast
qed

end
